theory Spec2Isabelle
  imports Main "HOL-Library.Sublist"
begin

section \<open>Strings\<close>

text \<open>
  A JavaScript string is modelled as a \<^typ>\<open>string\<close>, a list of 8-bit characters.
  \<open>String.prototype.trim\<close> removes white space and line terminators at both ends; among
  the characters below \<open>0x100\<close> these are TAB, LF, VT, FF, CR, SPACE and NBSP.
\<close>

definition isWhiteSpace :: "char \<Rightarrow> bool" where
  "isWhiteSpace c =
     (c \<in> set [CHR 0x09, CHR 0x0A, CHR 0x0B, CHR 0x0C, CHR 0x0D, CHR 0x20, CHR 0xA0])"

definition trim :: "string \<Rightarrow> string" where
  "trim s = rev (dropWhile isWhiteSpace (rev (dropWhile isWhiteSpace s)))"

text \<open>
  \<open>s.split(sep)\<close> for a separator that matches exactly one character: the pieces between
  the separators, in order; a string without separator (the empty string too) is one piece.
\<close>

fun split_loop :: "(char \<Rightarrow> bool) \<Rightarrow> string \<Rightarrow> string \<Rightarrow> string list" where
  "split_loop sep cur [] = [cur]"
| "split_loop sep cur (c # cs) =
     (if sep c then cur # split_loop sep [] cs else split_loop sep (cur @ [c]) cs)"

definition split_str :: "(char \<Rightarrow> bool) \<Rightarrow> string \<Rightarrow> string list" where
  "split_str sep s = split_loop sep [] s"

text \<open>The decimal digits of an array index, as a template literal \<open>`${idx}`\<close> prints it.\<close>

fun string_of_nat :: "nat \<Rightarrow> string" where
  "string_of_nat n =
     (if n < 10 then [''0123456789'' ! n]
      else string_of_nat (n div 10) @ [''0123456789'' ! (n mod 10)])"

declare string_of_nat.simps [simp del]


section \<open>Tabular text parser (\<open>parseCsvContent\<close> in api/client.ts)\<close>

record ParsedCsv =
  headers :: "string list"
  data :: "string list list"

text \<open>
  The \<open>for\<close> loop of \<open>parseRow\<close>: the characters still to scan, then the loop's three
  variables \<open>result\<close>, \<open>current\<close> and \<open>inQuotes\<close>. After the loop the buffer is pushed as
  the last field.
\<close>

fun parseRow_loop :: "string \<Rightarrow> string list \<Rightarrow> string \<Rightarrow> bool \<Rightarrow> string list" where
  "parseRow_loop [] result current inQuotes = result @ [trim current]"
| "parseRow_loop (char # rest) result current inQuotes =
     (if char = CHR 0x22 then parseRow_loop rest result current (\<not> inQuotes)
      else if char = CHR '','' \<and> \<not> inQuotes
        then parseRow_loop rest (result @ [trim current]) [] inQuotes
      else parseRow_loop rest result (current @ [char]) inQuotes)"

definition parseRow :: "string \<Rightarrow> string list" where
  "parseRow line = parseRow_loop line [] [] False"

definition parseCsvContent :: "string \<Rightarrow> ParsedCsv" where
  "parseCsvContent csvContent =
     (case split_str (\<lambda>c. c = CHR 0x0A) (trim csvContent) of
        [] \<Rightarrow> \<lparr>headers = [], data = []\<rparr>
      | line0 # lines1 \<Rightarrow> \<lparr>headers = parseRow line0, data = map parseRow lines1\<rparr>)"

text \<open>The number of double-quote characters of a string.\<close>

definition quotes :: "string \<Rightarrow> nat" where
  "quotes s = length (filter (\<lambda>c. c = CHR 0x22) s)"


section \<open>Data model (types.ts)\<close>

datatype FileType = Pdf | Image

datatype Status = Processing | Completed | Failed

text \<open>An optional field (\<open>editedContent?: string\<close>) is an option: \<open>None\<close> is \<open>undefined\<close>.\<close>

record MarkdownFile =
  content :: string
  filename :: string
  editedContent :: "string option"

record CsvFile =
  csv_id :: string
  csv_filename :: string
  csv_data :: "string list list"
  csv_headers :: "string list"
  editedData :: "string list list option"
  editedHeaders :: "string list option"

record ProcessedFile =
  pf_id :: string
  pf_name :: string
  pf_type :: FileType
  uploadedAt :: nat
  status :: Status
  markdown :: "MarkdownFile option"
  csvFiles :: "CsvFile list option"


section \<open>Extraction workflow (\<open>processFile\<close> in api/client.ts)\<close>

text \<open>
  A rejected promise carries the thrown value: an \<open>Error\<close> object with its message, or
  any other value.
\<close>

datatype error = Error string | NonError

record File =
  file_name :: string
  file_type :: string

text \<open>Of the two server responses, the fields the workflow reads.\<close>

record UploadResponse =
  merged_path :: string

record TableExtractionResponse =
  tables_count :: nat
  excel_files :: "string list"

record CsvFileData =
  cd_filename :: string
  cd_data :: "string list list"
  cd_headers :: "string list"

record MarkdownData =
  md_content :: string
  md_filename :: string

record ExtractionResult =
  result_markdown :: MarkdownData
  csv_files :: "CsvFileData list option"
  document_name :: string

text \<open>
  The four requests of \<open>apiClient\<close>. Each awaits the server and either returns the
  response or throws; the server's answers are parameters of the model.
\<close>

record Api =
  uploadFile :: "File \<Rightarrow> error + UploadResponse"
  downloadMarkdown :: "string \<Rightarrow> error + string"
  filterTables :: "string \<Rightarrow> error + TableExtractionResponse"
  downloadTable :: "string \<Rightarrow> string \<Rightarrow> error + string"

text \<open>The requests sent, in the order they are sent.\<close>

datatype call =
    UploadFile File
  | DownloadMarkdown string
  | FilterTables string
  | DownloadTable string string

text \<open>\<open>filePath.split(/[/\\]/).pop() || filePath\<close>: the empty string is falsy.\<close>

definition filenameOf :: "string \<Rightarrow> string" where
  "filenameOf filePath =
     (let seg = last (split_str (\<lambda>c. c = CHR ''/'' \<or> c = CHR 0x5C) filePath)
      in if seg = [] then filePath else seg)"

text \<open>The callback mapped over \<open>excel_files\<close>: what the promise of one table settles to.\<close>

definition downloadCsv :: "Api \<Rightarrow> string \<Rightarrow> string \<Rightarrow> error + CsvFileData" where
  "downloadCsv api documentName filePath =
     (let fname = filenameOf filePath in
      case downloadTable api documentName fname of
        Inl e \<Rightarrow> Inl e
      | Inr csvContent \<Rightarrow>
          (let parsed = parseCsvContent csvContent
           in Inr \<lparr>cd_filename = fname, cd_data = data parsed, cd_headers = headers parsed\<rparr>))"

text \<open>The table object that callback returns for a path and the text downloaded for it.\<close>

definition tableOf :: "string \<Rightarrow> string \<Rightarrow> CsvFileData" where
  "tableOf filePath csvContent =
     \<lparr>cd_filename = filenameOf filePath,
      cd_data = data (parseCsvContent csvContent),
      cd_headers = headers (parseCsvContent csvContent)\<rparr>"

text \<open>
  \<open>Promise.all\<close> over promises that settle to \<open>rs\<close>, in the order \<open>arrival\<close> (indices
  into \<open>rs\<close>): a fulfilled promise stores its value in the slot of its own index, the first
  rejection that arrives rejects the whole, and when every slot is filled the slots are
  the result. \<open>None\<close>: still pending after all of \<open>arrival\<close>.
\<close>

fun settle :: "nat list \<Rightarrow> (error + 'a) list \<Rightarrow> 'a option list \<Rightarrow> (error + 'a list) option" where
  "settle [] rs slots = map_option Inr (those slots)"
| "settle (i # arrival) rs slots =
     (if i < length rs then
        (case rs ! i of
           Inl e \<Rightarrow> Some (Inl e)
         | Inr v \<Rightarrow> settle arrival rs (slots[i := Some v]))
      else settle arrival rs slots)"

definition promise_all :: "nat list \<Rightarrow> (error + 'a) list \<Rightarrow> (error + 'a list) option" where
  "promise_all arrival rs = settle arrival rs (replicate (length rs) None)"

text \<open>
  \<open>processFile\<close> returns the requests it sent and how its promise settles (\<open>None\<close>: it
  never does). The \<open>try\<close> block around steps 3 and 4 turns every failure there into
  \<open>csvFiles = []\<close>.
\<close>

definition fetchTables :: "Api \<Rightarrow> nat list \<Rightarrow> string \<Rightarrow> call list \<times> CsvFileData list option" where
  "fetchTables api arrival documentName =
     (case filterTables api documentName of
        Inl e \<Rightarrow> ([FilterTables documentName], Some [])
      | Inr tableResult \<Rightarrow>
          if excel_files tableResult \<noteq> [] then
            (FilterTables documentName
               # map (\<lambda>filePath. DownloadTable documentName (filenameOf filePath))
                   (excel_files tableResult),
             case promise_all arrival
                    (map (downloadCsv api documentName) (excel_files tableResult)) of
               None \<Rightarrow> None
             | Some (Inl e) \<Rightarrow> Some []
             | Some (Inr tables) \<Rightarrow> Some tables)
          else ([FilterTables documentName], Some []))"

definition processFile ::
  "Api \<Rightarrow> nat list \<Rightarrow> File \<Rightarrow> call list \<times> (error + ExtractionResult) option" where
  "processFile api arrival file =
     (case uploadFile api file of
        Inl e \<Rightarrow> ([UploadFile file], Some (Inl e))
      | Inr uploadResult \<Rightarrow>
          (let documentName = merged_path uploadResult in
           case downloadMarkdown api documentName of
             Inl e \<Rightarrow> ([UploadFile file, DownloadMarkdown documentName], Some (Inl e))
           | Inr markdownContent \<Rightarrow>
               (let (calls, fetched) = fetchTables api arrival documentName in
                ([UploadFile file, DownloadMarkdown documentName] @ calls,
                 map_option
                   (\<lambda>tables. Inr
                      \<lparr>result_markdown =
                         \<lparr>md_content = markdownContent, md_filename = documentName @ ''.md''\<rparr>,
                       csv_files = Some tables,
                       document_name = documentName\<rparr>)
                   fetched))))"


section \<open>Application state (App.tsx)\<close>

datatype toast = ToastInfo string | ToastSuccess string | ToastError string

record AppState =
  currentFile :: "ProcessedFile option"
  isProcessing :: bool
  toasts :: "toast list"

definition toCsvFile :: "nat \<times> CsvFileData \<Rightarrow> CsvFile" where
  "toCsvFile p =
     (case p of (idx, csv) \<Rightarrow>
        \<lparr>csv_id = ''csv-'' @ string_of_nat idx,
         csv_filename = cd_filename csv,
         csv_data = cd_data csv,
         csv_headers = cd_headers csv,
         editedData = None,
         editedHeaders = None\<rparr>)"

text \<open>
  \<open>handleFileUpload\<close>, with the generated id and the clock as parameters. While
  \<open>processFile\<close> is pending the state is the one set before the \<open>await\<close>.
\<close>

definition handleFileUpload ::
  "Api \<Rightarrow> nat list \<Rightarrow> string \<Rightarrow> nat \<Rightarrow> File \<Rightarrow> AppState \<Rightarrow> call list \<times> AppState" where
  "handleFileUpload api arrival newId now file st =
     (let processingFile =
            \<lparr>pf_id = newId,
             pf_name = file_name file,
             pf_type = (if prefix ''image/'' (file_type file) then Image else Pdf),
             uploadedAt = now,
             status = Processing,
             markdown = None,
             csvFiles = None\<rparr>;
          st1 = st\<lparr>isProcessing := True,
                   currentFile := Some processingFile,
                   toasts := toasts st @ [ToastInfo ''Processing file... This may take a moment.'']\<rparr>
      in case processFile api arrival file of
        (calls, None) \<Rightarrow> (calls, st1)
      | (calls, Some (Inr result)) \<Rightarrow>
          (calls,
           st1\<lparr>currentFile := Some (processingFile
                   \<lparr>status := Completed,
                    markdown := Some
                      \<lparr>content = md_content (result_markdown result),
                       filename = md_filename (result_markdown result),
                       editedContent = None\<rparr>,
                    csvFiles := Some
                      (case csv_files result of
                         Some cs \<Rightarrow> map toCsvFile (enumerate 0 cs)
                       | None \<Rightarrow> [])\<rparr>),
                toasts := toasts st1 @ [ToastSuccess ''Extraction completed!''],
                isProcessing := False\<rparr>)
      | (calls, Some (Inl err)) \<Rightarrow>
          (calls,
           st1\<lparr>currentFile := Some (processingFile\<lparr>status := Failed\<rparr>),
                toasts := toasts st1 @
                  [ToastError (case err of Error m \<Rightarrow> m | NonError \<Rightarrow> ''Failed to process file'')],
                isProcessing := False\<rparr>))"

definition handleSaveMarkdown :: "string \<Rightarrow> AppState \<Rightarrow> AppState" where
  "handleSaveMarkdown newContent st =
     st\<lparr>currentFile :=
          (case currentFile st of
             None \<Rightarrow> None
           | Some prev \<Rightarrow>
               (case markdown prev of
                  None \<Rightarrow> Some prev
                | Some md \<Rightarrow> Some (prev\<lparr>markdown := Some (md\<lparr>editedContent := Some newContent\<rparr>)\<rparr>))),
        toasts := toasts st @ [ToastSuccess ''Markdown saved!'']\<rparr>"

definition handleSaveCsv :: "string \<Rightarrow> string list \<Rightarrow> string list list \<Rightarrow> AppState \<Rightarrow> AppState" where
  "handleSaveCsv csvId hdrs rows st =
     st\<lparr>currentFile :=
          (case currentFile st of
             None \<Rightarrow> None
           | Some prev \<Rightarrow>
               (case csvFiles prev of
                  None \<Rightarrow> Some prev
                | Some files \<Rightarrow>
                    Some (prev\<lparr>csvFiles := Some
                      (map (\<lambda>csv.
                          if csv_id csv = csvId then
                            csv\<lparr>editedData :=
                                  Some (map (\<lambda>row. take (length (csv_headers csv)) row) rows),
                                editedHeaders := Some (take (length (csv_headers csv)) hdrs)\<rparr>
                          else csv)
                        files)\<rparr>))),
        toasts := toasts st @ [ToastSuccess ''CSV saved!'']\<rparr>"

text \<open>
  The version of the application whose \<open>handleSaveCsv\<close> has two arguments: both save
  handlers do nothing, and show no notification, without a document that has the artifact.
\<close>

definition handleSaveMarkdown_v1 :: "string \<Rightarrow> AppState \<Rightarrow> AppState" where
  "handleSaveMarkdown_v1 newContent st =
     (case currentFile st of
        None \<Rightarrow> st
      | Some cur \<Rightarrow>
          (case markdown cur of
             None \<Rightarrow> st
           | Some md \<Rightarrow>
               st\<lparr>currentFile := Some (cur\<lparr>markdown := Some (md\<lparr>editedContent := Some newContent\<rparr>)\<rparr>),
                  toasts := toasts st @ [ToastSuccess ''Markdown saved!'']\<rparr>))"

definition handleSaveCsv_v1 :: "string \<Rightarrow> string list list \<Rightarrow> AppState \<Rightarrow> AppState" where
  "handleSaveCsv_v1 csvId rows st =
     (case currentFile st of
        None \<Rightarrow> st
      | Some cur \<Rightarrow>
          (case csvFiles cur of
             None \<Rightarrow> st
           | Some files \<Rightarrow>
               st\<lparr>currentFile := Some (cur\<lparr>csvFiles := Some
                    (map (\<lambda>csv. if csv_id csv = csvId then csv\<lparr>editedData := Some rows\<rparr> else csv)
                       files)\<rparr>),
                  toasts := toasts st @ [ToastSuccess ''CSV saved!'']\<rparr>))"


section \<open>Viewers (MarkdownViewer.tsx, CsvViewer.tsx)\<close>

text \<open>\<open>markdown.editedContent || markdown.content\<close>: \<open>undefined\<close> and \<open>""\<close> are falsy.\<close>

definition displayContent :: "MarkdownFile \<Rightarrow> string" where
  "displayContent md =
     (case editedContent md of
        None \<Rightarrow> content md
      | Some edited \<Rightarrow> if edited = [] then content md else edited)"

record CsvViewer =
  isEditing :: bool
  editHeaders :: "string list"
  editData :: "string list list"
  isTransforming :: bool
  transformError :: "string option"

text \<open>\<open>csv.editedHeaders || csv.headers\<close>: every array is truthy, the empty one too.\<close>

definition displayHeaders :: "CsvViewer \<Rightarrow> CsvFile \<Rightarrow> string list" where
  "displayHeaders v csv =
     (if isEditing v then editHeaders v
      else case editedHeaders csv of Some edited \<Rightarrow> edited | None \<Rightarrow> csv_headers csv)"

definition displayData :: "CsvViewer \<Rightarrow> CsvFile \<Rightarrow> string list list" where
  "displayData v csv =
     (if isEditing v then editData v
      else case editedData csv of Some edited \<Rightarrow> edited | None \<Rightarrow> csv_data csv)"

text \<open>
  \<open>handleTransform\<close>: \<open>onTransform\<close> is the optional callback, acting on the state \<open>outer\<close>
  of the components above the viewer and resolving or rejecting.
\<close>

definition handleTransform ::
  "(string \<Rightarrow> string list list \<Rightarrow> 's \<Rightarrow> 's \<times> (error + unit)) option
     \<Rightarrow> CsvFile \<Rightarrow> CsvViewer \<times> 's \<Rightarrow> CsvViewer \<times> 's" where
  "handleTransform onTransform csv vs =
     (case vs of (v, outer) \<Rightarrow>
        (case onTransform of
           None \<Rightarrow> (v, outer)
         | Some f \<Rightarrow>
             (let v1 = v\<lparr>isTransforming := True, transformError := None\<rparr>;
                  rows = (case editedData csv of Some edited \<Rightarrow> edited | None \<Rightarrow> csv_data csv)
              in case f (csv_id csv) rows outer of
                (outer', Inl err) \<Rightarrow>
                  (v1\<lparr>transformError :=
                        Some (case err of Error m \<Rightarrow> m | NonError \<Rightarrow> ''Transform failed''),
                      isTransforming := False\<rparr>,
                   outer')
              | (outer', Inr u) \<Rightarrow> (v1\<lparr>isTransforming := False\<rparr>, outer'))))"

text \<open>The state a viewer is mounted with (the initial values of its \<open>useState\<close> calls).\<close>

definition initialCsvViewer :: CsvViewer where
  "initialCsvViewer =
     \<lparr>isEditing = False, editHeaders = [], editData = [],
      isTransforming = False, transformError = None\<rparr>"


section \<open>Results panel (ResultsPanel.tsx)\<close>

datatype View = MarkdownView | CsvView

record ResultsPanel =
  activeView :: View
  selectedCsvId :: string
  csvVersion :: nat

text \<open>
  The panel's handlers act on the application state through the callbacks it is given
  and on its own \<open>csvVersion\<close>, a JavaScript number counted here as a natural number.
  The sources hold two versions of the panel. One has a \<open>handleSaveCsv\<close> of three
  arguments and gives \<open>onTransformCsv\<close> to the viewer as it is
  (\<open>onTransform={onTransformCsv}\<close>). The other has a \<open>handleSaveCsv\<close> of two arguments
  and wraps \<open>onTransformCsv\<close> in \<open>handleTransformCsv\<close>. In both, the markdown viewer is
  given \<open>onSaveMarkdown\<close> as it is, and \<open>onTransformCsv\<close> is optional.
\<close>

definition panel_handleSaveCsv ::
  "(string \<Rightarrow> string list \<Rightarrow> string list list \<Rightarrow> AppState \<Rightarrow> AppState)
     \<Rightarrow> string \<Rightarrow> string list \<Rightarrow> string list list
     \<Rightarrow> AppState \<times> ResultsPanel \<Rightarrow> AppState \<times> ResultsPanel" where
  "panel_handleSaveCsv onSaveCsv csvId hdrs rows s =
     (case s of (app, panel) \<Rightarrow>
        (onSaveCsv csvId hdrs rows app, panel\<lparr>csvVersion := csvVersion panel + 1\<rparr>))"

definition panel_handleSaveCsv_v1 ::
  "(string \<Rightarrow> string list list \<Rightarrow> AppState \<Rightarrow> AppState)
     \<Rightarrow> string \<Rightarrow> string list list
     \<Rightarrow> AppState \<times> ResultsPanel \<Rightarrow> AppState \<times> ResultsPanel" where
  "panel_handleSaveCsv_v1 onSaveCsv csvId rows s =
     (case s of (app, panel) \<Rightarrow>
        (onSaveCsv csvId rows app, panel\<lparr>csvVersion := csvVersion panel + 1\<rparr>))"

definition handleTransformCsv ::
  "(string \<Rightarrow> string list list \<Rightarrow> AppState \<Rightarrow> AppState \<times> (error + unit)) option
     \<Rightarrow> string \<Rightarrow> string list list
     \<Rightarrow> AppState \<times> ResultsPanel \<Rightarrow> (AppState \<times> ResultsPanel) \<times> (error + unit)" where
  "handleTransformCsv onTransformCsv csvId rows s =
     (case s of (app, panel) \<Rightarrow>
        (case onTransformCsv of
           None \<Rightarrow> ((app, panel), Inr ())
         | Some f \<Rightarrow>
             (case f csvId rows app of
                (app', Inl err) \<Rightarrow> ((app', panel), Inl err)
              | (app', Inr u) \<Rightarrow> ((app', panel\<lparr>csvVersion := csvVersion panel + 1\<rparr>), Inr ()))))"

definition panel_onSaveMarkdown ::
  "(string \<Rightarrow> AppState \<Rightarrow> AppState) \<Rightarrow> string
     \<Rightarrow> AppState \<times> ResultsPanel \<Rightarrow> AppState \<times> ResultsPanel" where
  "panel_onSaveMarkdown onSaveMarkdown newContent s =
     (case s of (app, panel) \<Rightarrow> (onSaveMarkdown newContent app, panel))"

text \<open>
  What the panel shows: \<open>csvFiles.find(c => c.id === selectedCsvId)\<close> over
  \<open>file?.csvFiles ?? []\<close>, read through a viewer that is not editing, and the markdown
  viewer's \<open>displayContent\<close> when the file has a markdown.
\<close>

definition selectedCsv :: "AppState \<Rightarrow> string \<Rightarrow> CsvFile option" where
  "selectedCsv st csvId =
     (case currentFile st of
        None \<Rightarrow> None
      | Some f \<Rightarrow>
          find (\<lambda>c. csv_id c = csvId) (case csvFiles f of Some files \<Rightarrow> files | None \<Rightarrow> []))"

definition effectiveTable :: "AppState \<Rightarrow> string \<Rightarrow> (string list \<times> string list list) option" where
  "effectiveTable st csvId =
     map_option (\<lambda>csv. (displayHeaders initialCsvViewer csv, displayData initialCsvViewer csv))
       (selectedCsv st csvId)"

definition effectiveText :: "AppState \<Rightarrow> string option" where
  "effectiveText st =
     (case currentFile st of
        None \<Rightarrow> None
      | Some f \<Rightarrow> map_option displayContent (markdown f))"

definition savedOverride :: "AppState \<Rightarrow> string option option" where
  "savedOverride st =
     (case currentFile st of
        None \<Rightarrow> None
      | Some f \<Rightarrow> map_option editedContent (markdown f))"

definition tableIds :: "AppState \<Rightarrow> string list" where
  "tableIds st =
     (case currentFile st of
        None \<Rightarrow> []
      | Some f \<Rightarrow> map csv_id (case csvFiles f of Some files \<Rightarrow> files | None \<Rightarrow> []))"


section \<open>The transform operation\<close>

record TidyResponse =
  tidy_headers :: "string list option"
  tidy_rows :: "string list list"

text \<open>
  Modelled from the spec: the handler behind the \<open>onTransformCsv\<close> property (the
  operation \<open>transformTable\<close>) is not among the sources; only its type and its callers
  are. It sends the rows it is given to the tidy-transform collaborator, whose answer
  \<open>response\<close> is a parameter. On success the answer becomes the table's new override by
  the same replacement as a save, with the current effective headers when the answer has
  none; on failure the state is left as it is and the failure goes to the caller.
\<close>

definition effectiveHeaders :: "AppState \<Rightarrow> string \<Rightarrow> string list" where
  "effectiveHeaders st csvId =
     (case currentFile st of
        None \<Rightarrow> []
      | Some f \<Rightarrow>
          (case csvFiles f of
             None \<Rightarrow> []
           | Some files \<Rightarrow>
               (case find (\<lambda>c. csv_id c = csvId) files of
                  None \<Rightarrow> []
                | Some csv \<Rightarrow>
                    (case editedHeaders csv of Some edited \<Rightarrow> edited | None \<Rightarrow> csv_headers csv))))"

definition transformTable ::
  "(error + TidyResponse) \<Rightarrow> string \<Rightarrow> string list list \<Rightarrow> AppState
     \<Rightarrow> AppState \<times> (error + unit)" where
  "transformTable response csvId rows st =
     (case response of
        Inl err \<Rightarrow> (st, Inl err)
      | Inr r \<Rightarrow>
          (handleSaveCsv csvId
             (case tidy_headers r of Some h \<Rightarrow> h | None \<Rightarrow> effectiveHeaders st csvId)
             (tidy_rows r) st,
           Inr ()))"


section \<open>Sequences of edit operations\<close>

datatype operation =
    SaveText string
  | SaveTable string "string list" "string list list"
  | TransformTable string "string list list" "error + TidyResponse"

text \<open>
  An operation is a save in the markdown viewer, a save in the table viewer (with the
  headers and rows edited there) or a click on the transform button of a table, together
  with the answer of the tidy-transform collaborator to it. The property \<open>onTransformCsv\<close>
  is a parameter: \<open>None\<close> when the application passes none, as the two versions among the
  sources do, \<open>Some transformTable\<close> for the handler of the transform operation.
\<close>

type_synonym transformCallback =
  "(error + TidyResponse) \<Rightarrow> string \<Rightarrow> string list list \<Rightarrow> AppState
     \<Rightarrow> AppState \<times> (error + unit)"

text \<open>
  The panel with \<open>handleTransformCsv\<close>. Its viewer's \<open>handleSave\<close> passes the rows
  only (\<open>onSave(newData)\<close>), and it is given the application whose handlers take them.
\<close>

fun step_v1 ::
  "transformCallback option \<Rightarrow> AppState \<times> ResultsPanel \<Rightarrow> operation
     \<Rightarrow> AppState \<times> ResultsPanel" where
  "step_v1 cb s (SaveText c) = panel_onSaveMarkdown handleSaveMarkdown_v1 c s"
| "step_v1 cb s (SaveTable csvId hdrs rows) =
     panel_handleSaveCsv_v1 handleSaveCsv_v1 csvId rows s"
| "step_v1 cb s (TransformTable csvId rows response) =
     fst (handleTransformCsv (map_option (\<lambda>f. f response) cb) csvId rows s)"

text \<open>
  The panel that gives \<open>onTransformCsv\<close> to the viewer as it is: a transform is the
  callback alone, when there is one, and the panel takes no part in it.
\<close>

fun step_v2 ::
  "transformCallback option \<Rightarrow> AppState \<times> ResultsPanel \<Rightarrow> operation
     \<Rightarrow> AppState \<times> ResultsPanel" where
  "step_v2 cb s (SaveText c) = panel_onSaveMarkdown handleSaveMarkdown c s"
| "step_v2 cb s (SaveTable csvId hdrs rows) =
     panel_handleSaveCsv handleSaveCsv csvId hdrs rows s"
| "step_v2 cb s (TransformTable csvId rows response) =
     (case cb of
        None \<Rightarrow> s
      | Some f \<Rightarrow> (fst (f response csvId rows (fst s)), snd s))"

definition run_v1 ::
  "transformCallback option \<Rightarrow> AppState \<times> ResultsPanel \<Rightarrow> operation list
     \<Rightarrow> AppState \<times> ResultsPanel" where
  "run_v1 cb s ops = foldl (step_v1 cb) s ops"

definition run_v2 ::
  "transformCallback option \<Rightarrow> AppState \<times> ResultsPanel \<Rightarrow> operation list
     \<Rightarrow> AppState \<times> ResultsPanel" where
  "run_v2 cb s ops = foldl (step_v2 cb) s ops"

text \<open>
  The operations that are table saves; those that add one to the counter of the panel
  with \<open>handleTransformCsv\<close>, in the application state the operation starts from; and,
  for \<open>transformTable\<close> as the callback, the table saves and the transforms the
  collaborator answers.
\<close>

fun saves_table :: "operation \<Rightarrow> bool" where
  "saves_table (SaveText c) = False"
| "saves_table (SaveTable csvId hdrs rows) = True"
| "saves_table (TransformTable csvId rows response) = False"

fun bumps_v1 :: "transformCallback option \<Rightarrow> AppState \<Rightarrow> operation \<Rightarrow> bool" where
  "bumps_v1 cb app (SaveText c) = False"
| "bumps_v1 cb app (SaveTable csvId hdrs rows) = True"
| "bumps_v1 cb app (TransformTable csvId rows response) =
     (case cb of
        None \<Rightarrow> False
      | Some f \<Rightarrow> \<not> isl (snd (f response csvId rows app)))"

fun bumps :: "operation \<Rightarrow> bool" where
  "bumps (SaveText c) = False"
| "bumps (SaveTable csvId hdrs rows) = True"
| "bumps (TransformTable csvId rows response) = (\<not> isl response)"


section \<open>Example inputs\<close>

definition demo_file :: File where
  "demo_file = \<lparr>file_name = ''report.pdf'', file_type = ''application/pdf''\<rparr>"

text \<open>A server that answers every request, with two tables.\<close>

definition demo_api :: Api where
  "demo_api =
     \<lparr>uploadFile = (\<lambda>f. Inr \<lparr>merged_path = ''report''\<rparr>),
      downloadMarkdown = (\<lambda>d. Inr ''# Report''),
      filterTables = (\<lambda>d. Inr \<lparr>tables_count = 2, excel_files = [''out/t1.csv'', ''out/t2.csv'']\<rparr>),
      downloadTable = (\<lambda>d f. if f = ''t1.csv'' then Inr ''a,b'' else Inr ''x'')\<rparr>"

text \<open>The same server, failing the markdown download or the table extraction.\<close>

definition demo_api_no_markdown :: Api where
  "demo_api_no_markdown = demo_api\<lparr>downloadMarkdown := (\<lambda>d. Inl (Error ''Download failed''))\<rparr>"

definition demo_api_no_tables :: Api where
  "demo_api_no_tables = demo_api\<lparr>filterTables := (\<lambda>d. Inl (Error ''Table extraction failed''))\<rparr>"

definition demo_start :: AppState where
  "demo_start = \<lparr>currentFile = None, isProcessing = False, toasts = []\<rparr>"

text \<open>A completed document with one table of one column.\<close>

definition demo_table :: CsvFile where
  "demo_table =
     \<lparr>csv_id = ''csv-0'', csv_filename = ''t1.csv'', csv_data = [ [''1''] ], csv_headers = [''a''],
      editedData = None, editedHeaders = None\<rparr>"

definition demo_completed :: AppState where
  "demo_completed =
     \<lparr>currentFile = Some
        \<lparr>pf_id = ''1-x'', pf_name = ''report.pdf'', pf_type = Pdf, uploadedAt = 0,
         status = Completed,
         markdown = Some \<lparr>content = ''# Report'', filename = ''report.md'', editedContent = None\<rparr>,
         csvFiles = Some [demo_table]\<rparr>,
      isProcessing = False, toasts = []\<rparr>"

definition demo_panel :: ResultsPanel where
  "demo_panel = \<lparr>activeView = CsvView, selectedCsvId = ''csv-0'', csvVersion = 0\<rparr>"



section \<open>Properties of the parser\<close>

lemma set_trim: "set (trim s) \<subseteq> set s"
  unfolding trim_def by (auto dest!: set_dropWhileD)

lemma trim_whitespace: "\<forall>c\<in>set s. isWhiteSpace c \<Longrightarrow> trim s = []"
  by (auto simp: trim_def dest: set_dropWhileD)

lemma split_loop_not_Nil: "split_loop sep cur s \<noteq> []"
  by (induction s arbitrary: cur) auto

lemma parseCsvContent_whitespace:
  "\<forall>c\<in>set s. isWhiteSpace c \<Longrightarrow> parseCsvContent s = \<lparr>headers = [ [] ], data = []\<rparr>"
proof -
  assume "\<forall>c\<in>set s. isWhiteSpace c"
  then have "trim s = []" by (rule trim_whitespace)
  moreover have "trim [] = []" by (simp add: trim_def)
  ultimately show ?thesis by (simp add: parseCsvContent_def split_str_def parseRow_def)
qed

text \<open>
  C2, blank input. The claim is that an empty or white-space-only input parses to no
  headers and no rows. In the code the trimmed input is the empty string, which splits
  into one empty line; the guard for an empty list of lines never holds, and the header
  row is one empty field.
\<close>

theorem parseCsvContent_blank:
  "parseCsvContent '''' = \<lparr>headers = [''''], data = []\<rparr>
   \<and> parseCsvContent [CHR 0x20, CHR 0x0A, CHR 0x09, CHR 0x20] = \<lparr>headers = [''''], data = []\<rparr>
   \<and> headers (parseCsvContent '''') \<noteq> []"
  by (simp add: parseCsvContent_def split_str_def parseRow_def trim_def isWhiteSpace_def)

text \<open>A header line and one data row, and fields trimmed whether quoted or not.\<close>

lemma parseCsvContent_example:
  "parseCsvContent [CHR ''a'', CHR '','', CHR ''b'', CHR '','', CHR ''c'', CHR 0x0A,
                    CHR ''1'', CHR '','', CHR ''2'', CHR '','', CHR ''3'']
     = \<lparr>headers = [''a'', ''b'', ''c''], data = [ [''1'', ''2'', ''3''] ]\<rparr>"
  by (simp add: parseCsvContent_def split_str_def parseRow_def trim_def isWhiteSpace_def)

lemma parseRow_trims_fields:
  \<open>parseRow ''" x ", y'' = [''x'', ''y'']\<close>
  by (simp add: parseRow_def trim_def isWhiteSpace_def)

lemma parseRow_loop_result:
  "parseRow_loop line result current q = result @ parseRow_loop line [] current q"
proof (induction line arbitrary: result current q)
  case Nil
  show ?case by simp
next
  case (Cons c cs)
  show ?case
  proof (cases "c = CHR 0x22")
    case True
    then show ?thesis using Cons.IH [of result current "\<not> q"] by simp
  next
    case False
    show ?thesis
    proof (cases "c = CHR '','' \<and> \<not> q")
      case True
      then show ?thesis
        using False Cons.IH [of "result @ [trim current]" "[]" q]
          Cons.IH [of "[trim current]" "[]" q]
        by simp
    next
      case F2: False
      then show ?thesis using False Cons.IH [of result "current @ [c]" q] by auto
    qed
  qed
qed

lemma parseRow_loop_comma:
  "q = odd (quotes l1) \<Longrightarrow>
   parseRow_loop (l1 @ CHR '','' # l2) [] current q
     = parseRow_loop l1 [] current q @ parseRow_loop l2 [] [] False"
proof (induction l1 arbitrary: current q)
  case Nil
  then show ?case
    using parseRow_loop_result [of l2 "[trim current]" "[]" False] by (simp add: quotes_def)
next
  case (Cons c cs)
  show ?case
  proof (cases "c = CHR 0x22")
    case True
    with Cons.prems have "(\<not> q) = odd (quotes cs)" by (simp add: quotes_def)
    from Cons.IH [OF this] True show ?thesis by simp
  next
    case False
    with Cons.prems have q: "q = odd (quotes cs)" by (simp add: quotes_def)
    show ?thesis
    proof (cases "c = CHR '','' \<and> \<not> q")
      case True
      then show ?thesis
        using Cons.IH [OF q, of "[]"] False
          parseRow_loop_result [of "cs @ CHR '','' # l2" "[trim current]" "[]" q]
          parseRow_loop_result [of "cs" "[trim current]" "[]" q]
        by simp
    next
      case F2: False
      then show ?thesis using Cons.IH [OF q] False by auto
    qed
  qed
qed

lemma parseRow_loop_quoted:
  "CHR 0x22 \<notin> set s \<Longrightarrow>
   parseRow_loop (s @ rest) result current True = parseRow_loop rest result (current @ s) True"
  by (induction s arbitrary: current) auto

lemma parseRow_loop_no_quote:
  "\<forall>f\<in>set result. CHR 0x22 \<notin> set f \<Longrightarrow> CHR 0x22 \<notin> set current \<Longrightarrow>
   \<forall>f\<in>set (parseRow_loop line result current q). CHR 0x22 \<notin> set f"
proof (induction line arbitrary: result current q)
  case Nil
  then show ?case using set_trim [of current] by auto
next
  case (Cons c cs)
  have t: "CHR 0x22 \<notin> set (trim current)" using Cons.prems(2) set_trim [of current] by auto
  show ?case
  proof (cases "c = CHR 0x22")
    case True
    then show ?thesis using Cons.IH [OF Cons.prems] by simp
  next
    case False
    show ?thesis
    proof (cases "c = CHR '','' \<and> \<not> q")
      case True
      have "\<forall>f\<in>set (result @ [trim current]). CHR 0x22 \<notin> set f" using Cons.prems(1) t by auto
      from Cons.IH [OF this, of "[]" q] True False show ?thesis by simp
    next
      case F2: False
      have "CHR 0x22 \<notin> set (current @ [c])" using Cons.prems(2) False by auto
      from Cons.IH [OF Cons.prems(1) this, of q] F2 False show ?thesis by auto
    qed
  qed
qed

lemma parseRow_loop_one_field:
  "\<forall>l1 l2. line = l1 @ CHR '','' # l2 \<longrightarrow> (q \<noteq> odd (quotes l1)) \<Longrightarrow>
   parseRow_loop line result current q
     = result @ [trim (current @ filter (\<lambda>c. c \<noteq> CHR 0x22) line)]"
proof (induction line arbitrary: current q)
  case Nil
  show ?case by simp
next
  case (Cons c cs)
  show ?case
  proof (cases "c = CHR 0x22")
    case True
    have "\<forall>l1 l2. cs = l1 @ CHR '','' # l2 \<longrightarrow> ((\<not> q) \<noteq> odd (quotes l1))"
    proof (intro allI impI)
      fix l1 l2 assume "cs = l1 @ CHR '','' # l2"
      then have "c # cs = (c # l1) @ CHR '','' # l2" by simp
      with Cons.prems have "q \<noteq> odd (quotes (c # l1))" by blast
      with True show "(\<not> q) \<noteq> odd (quotes l1)" by (simp add: quotes_def)
    qed
    from Cons.IH [OF this] True show ?thesis by simp
  next
    case False
    have rest: "\<forall>l1 l2. cs = l1 @ CHR '','' # l2 \<longrightarrow> (q \<noteq> odd (quotes l1))"
    proof (intro allI impI)
      fix l1 l2 assume "cs = l1 @ CHR '','' # l2"
      then have "c # cs = (c # l1) @ CHR '','' # l2" by simp
      with Cons.prems have "q \<noteq> odd (quotes (c # l1))" by blast
      with False show "q \<noteq> odd (quotes l1)" by (simp add: quotes_def)
    qed
    have inside: "q" if "c = CHR '',''"
    proof -
      from that have "c # cs = [] @ CHR '','' # cs" by simp
      with Cons.prems have "q \<noteq> odd (quotes [])" by blast
      then show ?thesis by (simp add: quotes_def)
    qed
    from Cons.IH [OF rest, of "current @ [c]"] False inside show ?thesis by auto
  qed
qed

lemma parseRow_one_field:
  "\<forall>l1 l2. line = l1 @ CHR '','' # l2 \<longrightarrow> odd (quotes l1) \<Longrightarrow>
   parseRow line = [trim (filter (\<lambda>c. c \<noteq> CHR 0x22) line)]"
  unfolding parseRow_def using parseRow_loop_one_field [of line False "[]" "[]"] by simp

lemma parseRow_split:
  "even (quotes l1) \<Longrightarrow> parseRow (l1 @ CHR '','' # l2) = parseRow l1 @ parseRow l2"
proof -
  assume "even (quotes l1)"
  then have "False = odd (quotes l1)" by simp
  from parseRow_loop_comma [OF this] show ?thesis by (simp add: parseRow_def)
qed

text \<open>
  The two laws fix the fields of every line: a function that splits at each comma
  outside quotes, and makes one field (quotes removed, trimmed) of each line whose commas
  are all inside quotes, is \<open>parseRow\<close>.
\<close>

lemma parseRow_determined:
  assumes split: "\<And>l1 l2. even (quotes l1) \<Longrightarrow> p (l1 @ CHR '','' # l2) = p l1 @ p l2"
    and one: "\<And>line. \<forall>l1 l2. line = l1 @ CHR '','' # l2 \<longrightarrow> odd (quotes l1) \<Longrightarrow>
                p line = [trim (filter (\<lambda>c. c \<noteq> CHR 0x22) line)]"
  shows "p line = parseRow line"
proof (induction line rule: length_induct)
  case (1 line)
  show ?case
  proof (cases "\<forall>l1 l2. line = l1 @ CHR '','' # l2 \<longrightarrow> odd (quotes l1)")
    case True
    then show ?thesis using one [OF True] parseRow_one_field [OF True] by simp
  next
    case False
    then obtain l1 l2 where l: "line = l1 @ CHR '','' # l2" and e: "even (quotes l1)" by blast
    have "length l1 < length line" "length l2 < length line" using l by simp_all
    with 1 have "p l1 = parseRow l1" "p l2 = parseRow l2" by blast+
    then show ?thesis using split [OF e, of l2] parseRow_split [OF e, of l2] l by simp
  qed
qed

text \<open>
  C9, quote-aware splitting. The line \<open>a,"b,c",d\<close> has the three fields \<open>a\<close>,
  \<open>b,c\<close> and \<open>d\<close>, and so has \<open>1, "b,c", 3\<close>, where the quote opens inside a field.
  In every line a comma that follows an even number of quote characters, so outside quotes,
  ends a field: the fields are those before it followed by those after it. A text without
  quote characters between two quotes is one field, its commas included. In every line a
  comma that follows an odd number of quote characters, so inside quotes, is field content:
  a line all of whose commas are inside quotes is one field, the line without its quote
  characters, trimmed.
\<close>

theorem parseRow_quoted_comma:
  \<open>parseRow ''a,"b,c",d'' = [''a'', ''b,c'', ''d'']
   \<and> (\<forall>l1 l2. even (quotes l1) \<longrightarrow>
          parseRow (l1 @ CHR '','' # l2) = parseRow l1 @ parseRow l2)
   \<and> (\<forall>s. CHR ''"'' \<notin> set s \<longrightarrow> parseRow (CHR ''"'' # s @ [CHR ''"'']) = [trim s])
   \<and> (\<forall>line. (\<forall>l1 l2. line = l1 @ CHR '','' # l2 \<longrightarrow> odd (quotes l1)) \<longrightarrow>
          parseRow line = [trim (filter (\<lambda>c. c \<noteq> CHR ''"'') line)])
   \<and> parseRow ''1, "b,c", 3'' = [''1'', ''b,c'', ''3'']\<close>
proof (intro conjI allI impI)
  show \<open>parseRow ''a,"b,c",d'' = [''a'', ''b,c'', ''d'']\<close>
    by (simp add: parseRow_def trim_def isWhiteSpace_def)
next
  fix l1 l2
  assume "even (quotes l1)"
  then show "parseRow (l1 @ CHR '','' # l2) = parseRow l1 @ parseRow l2"
    by (rule parseRow_split)
next
  fix s
  assume \<open>CHR ''"'' \<notin> set s\<close>
  then have "parseRow_loop (s @ [CHR 0x22]) [] [] True = parseRow_loop [CHR 0x22] [] ([] @ s) True"
    by (intro parseRow_loop_quoted) simp
  then show \<open>parseRow (CHR ''"'' # s @ [CHR ''"'']) = [trim s]\<close>
    by (simp add: parseRow_def)
next
  fix line
  assume "\<forall>l1 l2. line = l1 @ CHR '','' # l2 \<longrightarrow> odd (quotes l1)"
  then show \<open>parseRow line = [trim (filter (\<lambda>c. c \<noteq> CHR ''"'') line)]\<close>
    by (rule parseRow_one_field)
next
  show \<open>parseRow ''1, "b,c", 3'' = [''1'', ''b,c'', ''3'']\<close>
    by (simp add: parseRow_def trim_def isWhiteSpace_def)
qed

theorem parseRow_quoted_comma_witness:
  \<open>even (quotes ''a'')
   \<and> parseRow (''a'' @ CHR '','' # ''"b,c",d'') = parseRow ''a'' @ parseRow ''"b,c",d''
   \<and> CHR ''"'' \<notin> set ''b,c''
   \<and> parseRow (CHR ''"'' # ''b,c'' @ [CHR ''"'']) = [trim ''b,c'']
   \<and> parseRow ''x "b,c"'' = [trim (filter (\<lambda>c. c \<noteq> CHR ''"'') ''x "b,c"'')]
   \<and> trim (filter (\<lambda>c. c \<noteq> CHR ''"'') ''x "b,c"'') = ''x b,c''\<close>
proof -
  have h1: "even (quotes ''a'')" by (simp add: quotes_def)
  have h2: \<open>CHR ''"'' \<notin> set ''b,c''\<close> by simp
  have h3: \<open>\<forall>l1 l2. ''x "b,c"'' = l1 @ CHR '','' # l2 \<longrightarrow> odd (quotes l1)\<close>
    by (auto simp: append_eq_Cons_conv Cons_eq_append_conv quotes_def)
  from parseRow_quoted_comma h1
  have \<open>parseRow (''a'' @ CHR '','' # ''"b,c",d'') = parseRow ''a'' @ parseRow ''"b,c",d''\<close>
    by blast
  moreover from parseRow_quoted_comma h2
  have \<open>parseRow (CHR ''"'' # ''b,c'' @ [CHR ''"'']) = [trim ''b,c'']\<close>
    by blast
  moreover from parseRow_quoted_comma h3
  have \<open>parseRow ''x "b,c"'' = [trim (filter (\<lambda>c. c \<noteq> CHR ''"'') ''x "b,c"'')]\<close>
    by blast
  moreover have \<open>trim (filter (\<lambda>c. c \<noteq> CHR ''"'') ''x "b,c"'') = ''x b,c''\<close>
    by (simp add: trim_def isWhiteSpace_def)
  ultimately show ?thesis using h1 h2 by blast
qed

text \<open>
  C10, quotes are never field content. No field of a parsed line, of the header row or
  of a data row contains a double-quote character: \<open>"b,c"\<close> is the field \<open>b,c\<close>, and
  in \<open>"x""y"\<close> the doubled quote adds nothing to the field \<open>xy\<close>.
\<close>

theorem parser_fields_have_no_quote:
  \<open>(\<forall>f\<in>set (parseRow line). CHR ''"'' \<notin> set f)
   \<and> (\<forall>f\<in>set (headers (parseCsvContent s)). CHR ''"'' \<notin> set f)
   \<and> (\<forall>row\<in>set (data (parseCsvContent s)). \<forall>f\<in>set row. CHR ''"'' \<notin> set f)
   \<and> parseRow ''"b,c"'' = [''b,c'']
   \<and> parseRow ''"x""y"'' = [''xy'']\<close>
proof -
  have row: "\<forall>f\<in>set (parseRow l). CHR 0x22 \<notin> set f" for l
    unfolding parseRow_def by (rule parseRow_loop_no_quote) simp_all
  have "\<forall>f\<in>set (headers (parseCsvContent s)). CHR 0x22 \<notin> set f"
    using row by (simp add: parseCsvContent_def split: list.split)
  moreover have "\<forall>r\<in>set (data (parseCsvContent s)). \<forall>f\<in>set r. CHR 0x22 \<notin> set f"
    using row by (simp add: parseCsvContent_def split: list.split)
  moreover have \<open>parseRow ''"b,c"'' = [''b,c'']\<close>
    by (simp add: parseRow_def trim_def isWhiteSpace_def)
  moreover have \<open>parseRow ''"x""y"'' = [''xy'']\<close>
    by (simp add: parseRow_def trim_def isWhiteSpace_def)
  ultimately show ?thesis using row [of line] by simp
qed

theorem parser_fields_have_no_quote_witness:
  \<open>''b,c'' \<in> set (parseRow ''a,"b,c"'')
   \<and> ''b,c'' \<in> set (headers (parseCsvContent [CHR ''"'', CHR ''b'', CHR '','', CHR ''c'', CHR ''"'', CHR 0x0A, CHR ''1'', CHR ''"'']))
   \<and> [''1''] \<in> set (data (parseCsvContent [CHR ''"'', CHR ''b'', CHR '','', CHR ''c'', CHR ''"'', CHR 0x0A, CHR ''1'', CHR ''"'']))
   \<and> CHR ''"'' \<notin> set ''b,c'' \<and> CHR ''"'' \<notin> set ''1''\<close>
proof -
  let ?s = \<open>[CHR ''"'', CHR ''b'', CHR '','', CHR ''c'', CHR ''"'', CHR 0x0A, CHR ''1'', CHR ''"'']\<close>
  have h1: \<open>''b,c'' \<in> set (parseRow ''a,"b,c"'')\<close>
    by (simp add: parseRow_def trim_def isWhiteSpace_def)
  have h2: "''b,c'' \<in> set (headers (parseCsvContent ?s))"
    by (simp add: parseCsvContent_def split_str_def parseRow_def trim_def isWhiteSpace_def)
  have h3: "[''1''] \<in> set (data (parseCsvContent ?s))"
    by (simp add: parseCsvContent_def split_str_def parseRow_def trim_def isWhiteSpace_def)
  from parser_fields_have_no_quote [of \<open>''a,"b,c"''\<close> ?s] h2
  have \<open>CHR ''"'' \<notin> set ''b,c''\<close> by blast
  moreover from parser_fields_have_no_quote [of \<open>''a,"b,c"''\<close> ?s] h3
  have \<open>CHR ''"'' \<notin> set ''1''\<close> by fastforce
  ultimately show ?thesis using h1 h2 h3 by blast
qed


section \<open>Properties of the extraction workflow\<close>


lemma those_map_Some: "those (map Some vs) = Some vs"
  by (induction vs) auto

lemma settle_fulfilled:
  "length slots = length vs \<Longrightarrow>
   \<forall>i<length vs. slots ! i = Some (vs ! i) \<or> (slots ! i = None \<and> i \<in> set arrival) \<Longrightarrow>
   settle arrival (map Inr vs) slots = Some (Inr vs)"
proof (induction arrival arbitrary: slots)
  case Nil
  then have "slots = map Some vs"
    by (intro nth_equalityI) auto
  then show ?case by (simp add: those_map_Some)
next
  case (Cons i arrival)
  show ?case
  proof (cases "i < length vs")
    case True
    have len: "length (slots[i := Some (vs ! i)]) = length vs"
      using Cons.prems(1) by simp
    have "\<forall>j<length vs. slots[i := Some (vs ! i)] ! j = Some (vs ! j)
            \<or> (slots[i := Some (vs ! i)] ! j = None \<and> j \<in> set arrival)"
    proof (intro allI impI)
      fix j assume j: "j < length vs"
      show "slots[i := Some (vs ! i)] ! j = Some (vs ! j)
            \<or> (slots[i := Some (vs ! i)] ! j = None \<and> j \<in> set arrival)"
      proof (cases "j = i")
        case True
        then show ?thesis using j Cons.prems(1) by simp
      next
        case False
        then show ?thesis using j Cons.prems(2) by auto
      qed
    qed
    from Cons.IH [OF len this] True show ?thesis by simp
  next
    case False
    have "\<forall>j<length vs. slots ! j = Some (vs ! j) \<or> (slots ! j = None \<and> j \<in> set arrival)"
      using Cons.prems(2) False by auto
    from Cons.IH [OF Cons.prems(1) this] False show ?thesis by simp
  qed
qed

lemma promise_all_fulfilled:
  "{0..<length vs} \<subseteq> set arrival \<Longrightarrow> promise_all arrival (map Inr vs) = Some (Inr vs)"
  unfolding promise_all_def by (rule settle_fulfilled) auto

lemma downloadCsv_all:
  "map (\<lambda>p. downloadTable api d (filenameOf p)) ps = map Inr cs \<Longrightarrow>
   map (downloadCsv api d) ps = map Inr (map2 tableOf ps cs)"
proof (induction ps arbitrary: cs)
  case Nil
  then show ?case by simp
next
  case (Cons p ps)
  then obtain c cs' where cs: "cs = c # cs'" by (cases cs) auto
  with Cons.prems have "downloadTable api d (filenameOf p) = Inr c"
    and "map (\<lambda>p. downloadTable api d (filenameOf p)) ps = map Inr cs'" by auto
  with Cons.IH [of cs'] cs show ?case
    by (simp add: downloadCsv_def tableOf_def Let_def)
qed

lemma fetchTables_fulfilled:
  assumes "filterTables api d = Inr t"
    and "map (\<lambda>p. downloadTable api d (filenameOf p)) (excel_files t) = map Inr cs"
    and "{0..<length (excel_files t)} \<subseteq> set arrival"
  shows "snd (fetchTables api arrival d) = Some (map2 tableOf (excel_files t) cs)"
proof -
  from assms(2) have len: "length cs = length (excel_files t)"
    using map_eq_imp_length_eq by fastforce
  have "promise_all arrival (map (downloadCsv api d) (excel_files t))
          = Some (Inr (map2 tableOf (excel_files t) cs))"
    unfolding downloadCsv_all [OF assms(2)]
    by (rule promise_all_fulfilled) (use assms(3) len in simp)
  with assms(1) len show ?thesis by (auto simp: fetchTables_def)
qed

lemma settle_rejected:
  "k < length rs \<Longrightarrow> rs ! k = Inl e \<Longrightarrow> k \<in> set arrival \<Longrightarrow>
   \<exists>e'. settle arrival rs slots = Some (Inl e')"
proof (induction arrival arbitrary: slots)
  case Nil
  then show ?case by simp
next
  case (Cons i arrival)
  show ?case
  proof (cases "i < length rs")
    case True
    show ?thesis
    proof (cases "rs ! i")
      case (Inl e1)
      with True show ?thesis by simp
    next
      case (Inr v)
      with Cons.prems have "k \<in> set arrival" by auto
      from Cons.IH [OF Cons.prems(1,2) this] True Inr show ?thesis by simp
    qed
  next
    case False
    with Cons.prems have "k \<in> set arrival" by auto
    from Cons.IH [OF Cons.prems(1,2) this] False show ?thesis by simp
  qed
qed

text \<open>One table download that fails leaves the document without tables.\<close>

lemma fetchTables_rejected:
  assumes "filterTables api d = Inr t"
    and "p \<in> set (excel_files t)"
    and "downloadTable api d (filenameOf p) = Inl e"
    and "{0..<length (excel_files t)} \<subseteq> set arrival"
  shows "snd (fetchTables api arrival d) = Some []"
proof -
  from assms(2) obtain k where k: "k < length (excel_files t)" "excel_files t ! k = p"
    by (auto simp: in_set_conv_nth)
  let ?rs = "map (downloadCsv api d) (excel_files t)"
  have "?rs ! k = Inl e" using k assms(3) by (simp add: downloadCsv_def)
  moreover have "k < length ?rs" using k by simp
  moreover have "k \<in> set arrival" using k assms(4) by auto
  ultimately obtain e' where "promise_all arrival ?rs = Some (Inl e')"
    unfolding promise_all_def using settle_rejected by blast
  with assms(1,2) show ?thesis by (auto simp: fetchTables_def)
qed

lemma toCsvFile_enumerate:
  "length cs = length ps \<Longrightarrow>
   map toCsvFile (enumerate 0 (map2 tableOf ps cs)) =
   map (\<lambda>i. \<lparr>csv_id = ''csv-'' @ string_of_nat i,
              csv_filename = filenameOf (ps ! i),
              csv_data = data (parseCsvContent (cs ! i)),
              csv_headers = headers (parseCsvContent (cs ! i)),
              editedData = None, editedHeaders = None\<rparr>) [0..<length ps]"
  by (intro nth_equalityI) (simp_all add: nth_enumerate_eq toCsvFile_def tableOf_def)

text \<open>
  C4 as amended, tables in request order. When the upload, the markdown download and the
  table extraction succeed and each of the N table downloads succeeds, then for every
  order in which the N downloads arrive the document is completed and its tables are
  indexed by their position in the request list: table \<open>i\<close> is the parse of the text
  downloaded for the \<open>i\<close>-th listed file and has the id \<open>csv-i\<close>.
\<close>

theorem tables_in_request_order:
  assumes "uploadFile api file = Inr u"
    and "downloadMarkdown api (merged_path u) = Inr m"
    and "filterTables api (merged_path u) = Inr t"
    and "map (\<lambda>p. downloadTable api (merged_path u) (filenameOf p)) (excel_files t) = map Inr cs"
    and "distinct arrival"
    and "set arrival = {0..<length (excel_files t)}"
  shows "\<exists>f. currentFile (snd (handleFileUpload api arrival newId now file st)) = Some f
           \<and> status f = Completed
           \<and> csvFiles f = Some
                (map (\<lambda>i. \<lparr>csv_id = ''csv-'' @ string_of_nat i,
                           csv_filename = filenameOf (excel_files t ! i),
                           csv_data = data (parseCsvContent (cs ! i)),
                           csv_headers = headers (parseCsvContent (cs ! i)),
                           editedData = None, editedHeaders = None\<rparr>)
                   [0..<length (excel_files t)])"
proof -
  from assms(4) have len: "length cs = length (excel_files t)"
    using map_eq_imp_length_eq by fastforce
  from assms(6) have "{0..<length (excel_files t)} \<subseteq> set arrival" by simp
  from fetchTables_fulfilled [OF assms(3) assms(4) this]
  obtain calls where ft: "fetchTables api arrival (merged_path u)
      = (calls, Some (map2 tableOf (excel_files t) cs))"
    by (cases "fetchTables api arrival (merged_path u)") auto
  have "snd (processFile api arrival file) = Some (Inr
      \<lparr>result_markdown = \<lparr>md_content = m, md_filename = merged_path u @ ''.md''\<rparr>,
       csv_files = Some (map2 tableOf (excel_files t) cs),
       document_name = merged_path u\<rparr>)"
    using assms(1,2) ft by (simp add: processFile_def Let_def)
  then obtain calls' where pf: "processFile api arrival file = (calls', Some (Inr
      \<lparr>result_markdown = \<lparr>md_content = m, md_filename = merged_path u @ ''.md''\<rparr>,
       csv_files = Some (map2 tableOf (excel_files t) cs),
       document_name = merged_path u\<rparr>))"
    by (cases "processFile api arrival file") auto
  show ?thesis
    using pf toCsvFile_enumerate [OF len] by (simp add: handleFileUpload_def)
qed

theorem tables_in_request_order_witness:
  "tableIds (snd (handleFileUpload demo_api [1, 0] ''1-x'' 0 demo_file demo_start))
     = [''csv-0'', ''csv-1'']"
proof -
  let ?u = "\<lparr>merged_path = ''report''\<rparr>"
  let ?t = "\<lparr>tables_count = 2, excel_files = [''out/t1.csv'', ''out/t2.csv'']\<rparr>"
  have h1: "uploadFile demo_api demo_file = Inr ?u"
    by (simp add: demo_api_def)
  have h2: "downloadMarkdown demo_api (merged_path ?u) = Inr ''# Report''"
    by (simp add: demo_api_def)
  have h3: "filterTables demo_api (merged_path ?u) = Inr ?t"
    by (simp add: demo_api_def)
  have h4: "map (\<lambda>p. downloadTable demo_api (merged_path ?u) (filenameOf p)) (excel_files ?t)
            = map Inr [''a,b'', ''x'']"
    by (simp add: demo_api_def filenameOf_def split_str_def)
  have h5: "distinct [1, 0 :: nat]" by simp
  have h6: "set [1, 0 :: nat] = {0..<length (excel_files ?t)}"
    by auto
  from tables_in_request_order [OF h1 h2 h3 h4 h5 h6,
      where newId = "''1-x''" and now = 0 and st = demo_start]
  show ?thesis
    by (auto simp: tableIds_def upt_rec [of 0] upt_rec [of "Suc 0"] string_of_nat.simps)
qed

text \<open>
  C4 as stated gives the tables the ids \<open>table-0\<close>, \<open>table-1\<close>, ...; for an upload
  with two tables the ids are not these.
\<close>

theorem table_ids_counterexample:
  "tableIds (snd (handleFileUpload demo_api [1, 0] ''1-x'' 0 demo_file demo_start))
     \<noteq> [''table-0'', ''table-1'']"
  by (simp add: tableIds_def handleFileUpload_def processFile_def fetchTables_def promise_all_def
      downloadCsv_def demo_api_def demo_file_def demo_start_def filenameOf_def split_str_def
      parseCsvContent_def parseRow_def trim_def isWhiteSpace_def toCsvFile_def Let_def
      string_of_nat.simps)

text \<open>
  C5, a failed markdown download is fatal. When the upload succeeds and the download
  of the generated text fails, the requests sent are the upload and that download, no
  table extraction and no table download; the document has status error, no markdown and no
  tables.
\<close>

theorem markdown_failure_is_fatal:
  assumes "uploadFile api file = Inr u"
    and "downloadMarkdown api (merged_path u) = Inl e"
  shows "fst (handleFileUpload api arrival newId now file st)
           = [UploadFile file, DownloadMarkdown (merged_path u)]
         \<and> (\<exists>f. currentFile (snd (handleFileUpload api arrival newId now file st)) = Some f
                \<and> status f = Failed \<and> markdown f = None \<and> csvFiles f = None)"
  using assms by (simp add: handleFileUpload_def processFile_def Let_def)

theorem markdown_failure_is_fatal_witness:
  "fst (handleFileUpload demo_api_no_markdown [1, 0] ''1-x'' 0 demo_file demo_start)
     = [UploadFile demo_file, DownloadMarkdown ''report'']
   \<and> tableIds (snd (handleFileUpload demo_api_no_markdown [1, 0] ''1-x'' 0 demo_file demo_start)) = []
   \<and> effectiveText (snd (handleFileUpload demo_api_no_markdown [1, 0] ''1-x'' 0 demo_file demo_start)) = None
   \<and> filterTables demo_api_no_markdown ''report''
       = Inr \<lparr>tables_count = 2, excel_files = [''out/t1.csv'', ''out/t2.csv'']\<rparr>"
proof -
  have h1: "uploadFile demo_api_no_markdown demo_file = Inr \<lparr>merged_path = ''report''\<rparr>"
    by (simp add: demo_api_no_markdown_def demo_api_def)
  have h2: "downloadMarkdown demo_api_no_markdown (merged_path \<lparr>merged_path = ''report''\<rparr>)
      = Inl (Error ''Download failed'')"
    by (simp add: demo_api_no_markdown_def demo_api_def)
  have h3: "filterTables demo_api_no_markdown ''report''
       = Inr \<lparr>tables_count = 2, excel_files = [''out/t1.csv'', ''out/t2.csv'']\<rparr>"
    by (simp add: demo_api_no_markdown_def demo_api_def)
  from markdown_failure_is_fatal [OF h1 h2, of "[1, 0]" "''1-x''" 0 demo_start] h3
  show ?thesis by (auto simp: tableIds_def effectiveText_def)
qed

text \<open>
  C6, a failed table extraction is caught. When the upload and the markdown download
  succeed and the table-extraction request fails, \<open>processFile\<close> still resolves, with no
  tables, and the document is completed with its markdown and an empty list of tables.
\<close>

theorem table_extraction_failure_is_caught:
  assumes "uploadFile api file = Inr u"
    and "downloadMarkdown api (merged_path u) = Inr m"
    and "filterTables api (merged_path u) = Inl e"
  shows "snd (processFile api arrival file) = Some (Inr
           \<lparr>result_markdown = \<lparr>md_content = m, md_filename = merged_path u @ ''.md''\<rparr>,
            csv_files = Some [],
            document_name = merged_path u\<rparr>)
         \<and> (\<exists>f. currentFile (snd (handleFileUpload api arrival newId now file st)) = Some f
                \<and> status f = Completed
                \<and> markdown f = Some \<lparr>content = m, filename = merged_path u @ ''.md'',
                                       editedContent = None\<rparr>
                \<and> csvFiles f = Some [])"
  using assms by (simp add: handleFileUpload_def processFile_def fetchTables_def Let_def)

theorem table_extraction_failure_is_caught_witness:
  "tableIds (snd (handleFileUpload demo_api_no_tables [] ''1-x'' 0 demo_file demo_start)) = []
   \<and> effectiveText (snd (handleFileUpload demo_api_no_tables [] ''1-x'' 0 demo_file demo_start))
       = Some ''# Report''"
proof -
  have h1: "uploadFile demo_api_no_tables demo_file = Inr \<lparr>merged_path = ''report''\<rparr>"
    by (simp add: demo_api_no_tables_def demo_api_def)
  have h2: "downloadMarkdown demo_api_no_tables (merged_path \<lparr>merged_path = ''report''\<rparr>)
      = Inr ''# Report''"
    by (simp add: demo_api_no_tables_def demo_api_def)
  have h3: "filterTables demo_api_no_tables (merged_path \<lparr>merged_path = ''report''\<rparr>)
      = Inl (Error ''Table extraction failed'')"
    by (simp add: demo_api_no_tables_def demo_api_def)
  from table_extraction_failure_is_caught [OF h1 h2 h3, of "[]" "''1-x''" 0 demo_start]
  show ?thesis by (auto simp: tableIds_def effectiveText_def displayContent_def)
qed


section \<open>Properties of the edit state\<close>


lemma find_map_same_id:
  "(\<And>c. csv_id (g c) = csv_id c) \<Longrightarrow>
   find (\<lambda>c. csv_id c = i) (map g files) = map_option g (find (\<lambda>c. csv_id c = i) files)"
  by (induction files) auto

lemma find_Some_id: "find (\<lambda>c. csv_id c = i) files = Some csv \<Longrightarrow> csv_id csv = i"
  by (induction files) (auto split: if_splits)

lemma selectedCsv_handleSaveCsv:
  assumes "selectedCsv st csvId = Some csv"
  shows "selectedCsv (handleSaveCsv csvId H R st) csvId =
    Some (csv\<lparr>editedData := Some (map (take (length (csv_headers csv))) R),
              editedHeaders := Some (take (length (csv_headers csv)) H)\<rparr>)"
proof -
  from assms obtain f where f: "currentFile st = Some f"
    by (auto simp: selectedCsv_def split: option.splits)
  with assms obtain files where files: "csvFiles f = Some files"
    and found: "find (\<lambda>c. csv_id c = csvId) files = Some csv"
    by (cases "csvFiles f") (auto simp: selectedCsv_def)
  let ?g = "\<lambda>c. if csv_id c = csvId
      then c\<lparr>editedData := Some (map (\<lambda>row. take (length (csv_headers c)) row) R),
             editedHeaders := Some (take (length (csv_headers c)) H)\<rparr>
      else c"
  have "find (\<lambda>c. csv_id c = csvId) (map ?g files) = map_option ?g (Some csv)"
    unfolding found [symmetric] by (rule find_map_same_id) simp
  moreover have "csv_id csv = csvId" using found by (rule find_Some_id)
  ultimately show ?thesis using f files
    by (simp add: selectedCsv_def handleSaveCsv_def)
qed

text \<open>
  C1 as amended, saving a table. For a table id present on the document, after
  \<open>handleSaveCsv id H R\<close> the table read back for that id has the headers \<open>H\<close> and the
  rows \<open>R\<close>, each cut to the number of original headers; so it is exactly \<open>(H, R)\<close>
  when \<open>H\<close> and every row of \<open>R\<close> are no longer than the original header list. The
  original headers and rows are unchanged.
\<close>

theorem saveTable_effective:
  assumes "selectedCsv st csvId = Some csv"
  shows "effectiveTable (handleSaveCsv csvId H R st) csvId
           = Some (take (length (csv_headers csv)) H, map (take (length (csv_headers csv))) R)
         \<and> map_option csv_headers (selectedCsv (handleSaveCsv csvId H R st) csvId)
             = Some (csv_headers csv)
         \<and> map_option csv_data (selectedCsv (handleSaveCsv csvId H R st) csvId)
             = Some (csv_data csv)
         \<and> (length H \<le> length (csv_headers csv)
              \<and> (\<forall>r\<in>set R. length r \<le> length (csv_headers csv))
            \<longrightarrow> effectiveTable (handleSaveCsv csvId H R st) csvId = Some (H, R))"
proof -
  have short: "map (take n) R = R" if "\<forall>r\<in>set R. length r \<le> n" for n
    using that by (induction R) auto
  show ?thesis
    using selectedCsv_handleSaveCsv [OF assms, of H R] short [of "length (csv_headers csv)"]
    by (simp add: effectiveTable_def displayHeaders_def displayData_def initialCsvViewer_def)
qed

theorem saveTable_effective_witness:
  "effectiveTable (handleSaveCsv ''csv-0'' [''x''] [ [''2''], [] ] demo_completed) ''csv-0''
     = Some ([''x''], [ [''2''], [] ])
   \<and> map_option csv_headers
       (selectedCsv (handleSaveCsv ''csv-0'' [''x''] [ [''2''], [] ] demo_completed) ''csv-0'')
     = Some [''a'']
   \<and> map_option csv_data
       (selectedCsv (handleSaveCsv ''csv-0'' [''x''] [ [''2''], [] ] demo_completed) ''csv-0'')
     = Some [ [''1''] ]"
proof -
  have h: "selectedCsv demo_completed ''csv-0'' = Some demo_table"
    by (simp add: selectedCsv_def demo_completed_def demo_table_def)
  from saveTable_effective [OF h, of "[''x'']" "[ [''2''], [] ]"]
  show ?thesis by (simp add: demo_table_def)
qed

text \<open>
  C1 as stated promises every header and every row at full length; a save of two columns
  over a table of one column reads back as one column.
\<close>

theorem saveTable_truncates_counterexample:
  "effectiveTable (handleSaveCsv ''csv-0'' [''x'', ''y''] [ [''1'', ''2''] ] demo_completed) ''csv-0''
     = Some ([''x''], [ [''1''] ])
   \<and> effectiveTable (handleSaveCsv ''csv-0'' [''x'', ''y''] [ [''1'', ''2''] ] demo_completed) ''csv-0''
     \<noteq> Some ([''x'', ''y''], [ [''1'', ''2''] ])"
  by (simp add: effectiveTable_def selectedCsv_def handleSaveCsv_def demo_completed_def
      demo_table_def displayHeaders_def displayData_def initialCsvViewer_def)

text \<open>A save stores the text as it is, and a non-empty text is then the one shown.\<close>

lemma saveText_override:
  "effectiveText st \<noteq> None \<Longrightarrow> savedOverride (handleSaveMarkdown c st) = Some (Some c)"
  by (auto simp: effectiveText_def savedOverride_def handleSaveMarkdown_def split: option.splits)

lemma saveText_nonempty:
  "effectiveText st \<noteq> None \<Longrightarrow> c \<noteq> [] \<Longrightarrow> effectiveText (handleSaveMarkdown c st) = Some c"
  by (auto simp: effectiveText_def handleSaveMarkdown_def displayContent_def split: option.splits)

text \<open>
  C3, saving a text. The claim is that after a save of any text \<open>c\<close>, the empty one
  too, the override is \<open>c\<close> and the text shown is \<open>c\<close>. In the code a save of the empty
  text stores the empty override, and the viewer, reading \<open>editedContent || content\<close>,
  still shows the original.
\<close>

theorem saveText_empty_shows_original:
  "savedOverride (handleSaveMarkdown '''' demo_completed) = Some (Some '''')
   \<and> effectiveText (handleSaveMarkdown '''' demo_completed) = Some ''# Report''
   \<and> effectiveText (handleSaveMarkdown '''' demo_completed) \<noteq> Some ''''"
  by (simp add: savedOverride_def effectiveText_def handleSaveMarkdown_def displayContent_def
      demo_completed_def)

text \<open>
  C7, a failed transform. When the transform fails, the panel's handler leaves the
  application state (the document with every override) and the panel (the version counter)
  as they were and hands the error on; the viewer then holds the error's message for display
  and is no longer transforming.
\<close>

theorem transform_failure_leaves_state:
  "handleTransformCsv (Some (transformTable (Inl err))) csvId rows (app, panel)
     = ((app, panel), Inl err)
   \<and> handleTransform (Some (handleTransformCsv (Some (transformTable (Inl err))))) csv
       (v, (app, panel))
     = (v\<lparr>isTransforming := False,
          transformError := Some (case err of Error m \<Rightarrow> m | NonError \<Rightarrow> ''Transform failed'')\<rparr>,
        (app, panel))"
  by (simp add: handleTransformCsv_def transformTable_def handleTransform_def)

text \<open>
  Whatever callback the panel is given: when it rejects, the panel keeps its counter and
  passes the error on; when it resolves, the counter grows by one.
\<close>

lemma handleTransformCsv_rejected:
  "f csvId rows app = (app', Inl err) \<Longrightarrow>
   handleTransformCsv (Some f) csvId rows (app, panel) = ((app', panel), Inl err)"
  by (simp add: handleTransformCsv_def)

lemma handleTransformCsv_resolved:
  "f csvId rows app = (app', Inr u) \<Longrightarrow>
   handleTransformCsv (Some f) csvId rows (app, panel)
     = ((app', panel\<lparr>csvVersion := csvVersion panel + 1\<rparr>), Inr ())"
  by (simp add: handleTransformCsv_def)

lemma step_v1_csvVersion:
  "csvVersion (snd (step_v1 cb s op))
     = csvVersion (snd s) + (if bumps_v1 cb (fst s) op then 1 else 0)"
  by (cases op; cases s; cases cb)
    (auto simp: panel_onSaveMarkdown_def panel_handleSaveCsv_v1_def handleTransformCsv_def
      split: sum.splits prod.splits)

lemma step_v2_csvVersion:
  "csvVersion (snd (step_v2 cb s op)) = csvVersion (snd s) + (if saves_table op then 1 else 0)"
  by (cases op; cases s; cases cb)
    (auto simp: panel_onSaveMarkdown_def panel_handleSaveCsv_def)

lemma bumps_v1_None: "bumps_v1 None app op = saves_table op"
  by (cases op) auto

lemma bumps_v1_transformTable: "bumps_v1 (Some transformTable) app op = bumps op"
  by (cases op) (auto simp: transformTable_def split: sum.splits)

lemma run_v1_mono: "csvVersion (snd s) \<le> csvVersion (snd (run_v1 cb s ops))"
  unfolding run_v1_def
proof (induction ops arbitrary: s)
  case Nil
  show ?case by simp
next
  case (Cons op ops)
  have "csvVersion (snd s) \<le> csvVersion (snd (step_v1 cb s op))"
    by (simp add: step_v1_csvVersion)
  also have "\<dots> \<le> csvVersion (snd (foldl (step_v1 cb) (step_v1 cb s op) ops))"
    by (rule Cons.IH)
  finally show ?case by simp
qed

lemma run_v1_None_csvVersion:
  "csvVersion (snd (run_v1 None s ops)) = csvVersion (snd s) + length (filter saves_table ops)"
  unfolding run_v1_def
  by (induction ops arbitrary: s) (simp_all add: step_v1_csvVersion bumps_v1_None)

lemma run_v1_transformTable_csvVersion:
  "csvVersion (snd (run_v1 (Some transformTable) s ops))
     = csvVersion (snd s) + length (filter bumps ops)"
  unfolding run_v1_def
  by (induction ops arbitrary: s) (simp_all add: step_v1_csvVersion bumps_v1_transformTable)

lemma run_v2_csvVersion:
  "csvVersion (snd (run_v2 cb s ops)) = csvVersion (snd s) + length (filter saves_table ops)"
  unfolding run_v2_def
  by (induction ops arbitrary: s) (simp_all add: step_v2_csvVersion)

text \<open>
  C8 as amended, the version counter. In both versions of the panel the counter never
  decreases over a sequence of operations, each table save adds one to it and a text save
  leaves it as it is. A transform adds one to it only in the panel that wraps the callback
  in \<open>handleTransformCsv\<close>, and there only when a callback is passed and resolves; a
  failed transform, a transform without callback, and every transform in the panel that
  gives the callback to the viewer as it is leave the counter as it is. So the counter
  counts the table saves, and, in the wrapping panel with \<open>transformTable\<close> as the
  callback, the table saves and the transforms that succeed.
\<close>

theorem csvVersion_counts_table_edits:
  "csvVersion (snd (step_v1 cb s op))
     = csvVersion (snd s) + (if bumps_v1 cb (fst s) op then 1 else 0)
   \<and> csvVersion (snd (step_v2 cb s op))
     = csvVersion (snd s) + (if saves_table op then 1 else 0)
   \<and> csvVersion (snd s) \<le> csvVersion (snd (run_v1 cb s ops))
   \<and> csvVersion (snd s) \<le> csvVersion (snd (run_v2 cb s ops))
   \<and> csvVersion (snd (run_v2 cb s ops)) = csvVersion (snd s) + length (filter saves_table ops)
   \<and> csvVersion (snd (run_v1 None s ops)) = csvVersion (snd s) + length (filter saves_table ops)
   \<and> csvVersion (snd (run_v1 (Some transformTable) s ops))
     = csvVersion (snd s) + length (filter bumps ops)"
  by (simp add: step_v1_csvVersion step_v2_csvVersion run_v1_mono run_v2_csvVersion
      run_v1_None_csvVersion run_v1_transformTable_csvVersion)

text \<open>
  C8 as stated has a text save add one to the counter; in neither version of the panel it
  does.
\<close>

theorem saveText_version_counterexample:
  "csvVersion (snd (run_v2 None (demo_completed, demo_panel) [SaveText ''new text'']))
     = csvVersion demo_panel
   \<and> csvVersion (snd (run_v2 None (demo_completed, demo_panel) [SaveText ''new text'']))
     \<noteq> csvVersion demo_panel + 1
   \<and> csvVersion (snd (run_v1 None (demo_completed, demo_panel) [SaveText ''new text'']))
     = csvVersion demo_panel
   \<and> csvVersion (snd (run_v1 None (demo_completed, demo_panel) [SaveText ''new text'']))
     \<noteq> csvVersion demo_panel + 1"
  by (simp add: run_v1_def run_v2_def panel_onSaveMarkdown_def)

text \<open>
  A transform that succeeds, with \<open>transformTable\<close> as the callback: the wrapping panel
  counts it, the other panel does not.
\<close>

lemma transform_success_versions:
  "csvVersion (snd (step_v1 (Some transformTable) (demo_completed, demo_panel)
      (TransformTable ''csv-0'' [ [''1''] ] (Inr \<lparr>tidy_headers = None, tidy_rows = [ [''2''] ]\<rparr>))))
     = 1
   \<and> csvVersion (snd (step_v2 (Some transformTable) (demo_completed, demo_panel)
      (TransformTable ''csv-0'' [ [''1''] ] (Inr \<lparr>tidy_headers = None, tidy_rows = [ [''2''] ]\<rparr>))))
     = 0"
  by (simp add: handleTransformCsv_def transformTable_def demo_panel_def)

end
